theory Spec2Isabelle
  imports Main "HOL-Library.AList"
begin

section \<open>The real-time engine of backend/src/server.js\<close>

text \<open>
  The development embeds the Socket.io part of \<^verbatim>\<open>backend/src/server.js\<close> (lines 335-425):
  the \<^verbatim>\<open>connectedUsers\<close> map and the four handlers registered on every connection
  (\<^verbatim>\<open>authenticate\<close>, \<^verbatim>\<open>send_message\<close>, \<^verbatim>\<open>typing\<close>, \<^verbatim>\<open>disconnect\<close>).

  Each handler is a function from the server state to the server state. Everything a handler
  does that can be seen from outside (a packet delivered to a socket, a write to
  \<^verbatim>\<open>connectedUsers\<close>, a document saved, a socket closed) is appended to the \<open>trace\<close> field in
  the order of the source's statements, so that the order of effects can be stated.

  The \<^verbatim>\<open>authenticate\<close> and \<^verbatim>\<open>send_message\<close> handlers suspend at every \<^verbatim>\<open>await\<close> (lines 346,
  359, 362 and 394), and other events are handled in between. The model has both views: the
  functions \<open>on_authenticate\<close> and \<open>on_send_message\<close> are a handler that runs from its
  event to its end with nothing in between, and \<open>step\<close> runs a handler only up to its next
  \<^verbatim>\<open>await\<close>, keeps what is left of it in the \<open>pending\<close> field, and resumes it at a later
  \<open>Settle\<close> step. What the environment decides (the verdict of \<^verbatim>\<open>jwt.verify\<close>, the clock, the
  generated \<^verbatim>\<open>_id\<close>, whether a database call throws) is an input of every step, the record
  \<open>env\<close>.
\<close>

subsection \<open>Data\<close>

type_synonym socket_id = nat
type_synonym object_id = nat

text \<open>\<^verbatim>\<open>userSchema\<close> (lines 47-53) and \<^verbatim>\<open>messageSchema\<close> (lines 55-60); a message also has the
  \<^verbatim>\<open>_id\<close> that Mongoose generates.\<close>

record user =
  u_nickname :: string
  u_email :: "string option"
  u_password :: string
  u_createdAt :: int
  u_lastSeen :: int

record message =
  m_id :: object_id
  m_userId :: object_id
  m_nickname :: string
  m_text :: string
  m_timestamp :: int

text \<open>The payloads of \<^verbatim>\<open>auth_error\<close> and \<^verbatim>\<open>error\<close> are four fixed texts of the source (lines 349,
  376, 384 and 406), named here by what they say.\<close>

datatype reason = UserNotFound | InvalidToken | NotAuthorized | SendFailed

text \<open>The events the server sends.\<close>

datatype event =
    AuthError reason
  | MessageHistory "message list"
  | Authenticated string
  | UserJoined string
  | Error reason
  | NewMessage message
  | UserTyping string
  | UserLeft string

datatype effect =
    Deliver socket_id event
  | RegistrySet socket_id object_id
  | RegistryDelete socket_id
  | UserSaved object_id
  | MessageSaved message
  | Disconnected socket_id

text \<open>A connected socket. \<^verbatim>\<open>socket.userId\<close> and \<^verbatim>\<open>socket.nickname\<close> are undefined on a new
  socket and are only ever assigned together (lines 353-354), so they are one optional pair.
  \<^verbatim>\<open>socket.userId\<close> is the text of an ObjectId, never the empty string, so the test
  \<^verbatim>\<open>socket.userId\<close> of the handlers is the test that the pair is there.\<close>

record socket =
  sock_id :: socket_id
  session :: "(object_id \<times> string) option"

text \<open>The state: the sockets connected to the namespace in connection order, the
  \<^verbatim>\<open>connectedUsers\<close> map (line 337; a JavaScript Map keeps insertion order, an association list
  with \<open>AList.update\<close> and \<open>AList.delete\<close> does the same), the two collections (the messages in
  insertion order), the trace, and the suspended handlers in the order in which they
  suspended.\<close>

text \<open>What is left of a handler that waits at an \<^verbatim>\<open>await\<close>, with the socket it runs for and
  the local variables it still needs: the decoded id at line 346, the user with its new
  \<^verbatim>\<open>lastSeen\<close> at line 359, the user's nickname at line 362, the new message at line 394.\<close>

datatype suspended =
    AwaitFindById socket_id object_id
  | AwaitUserSave socket_id object_id user
  | AwaitMessages socket_id string
  | AwaitMessageSave socket_id message

record server =
  sockets :: "socket list"
  connectedUsers :: "(socket_id \<times> object_id) list"
  users :: "(object_id \<times> user) list"
  messages :: "message list"
  trace :: "effect list"
  pending :: "suspended list"

record env =
  jwt_verify :: "string \<Rightarrow> object_id option"
  now :: int
  fresh_id :: object_id
  find_ok :: bool
  user_save_ok :: bool
  query_ok :: bool
  message_save_ok :: bool

subsection \<open>Socket.io and the Map\<close>

definition find_socket :: "socket_id \<Rightarrow> server \<Rightarrow> socket option" where
  "find_socket sid s = find (\<lambda>k. sock_id k = sid) (sockets s)"

text \<open>\<^verbatim>\<open>socket.emit\<close> on a connected socket: one packet to this socket. An event reaches its
  handler only on a connected socket, so this is \<^verbatim>\<open>socket.emit\<close> for every call that a handler
  makes before its first \<^verbatim>\<open>await\<close>, and for every call of a handler that nothing
  interrupts.\<close>

definition socket_emit :: "socket_id \<Rightarrow> event \<Rightarrow> server \<Rightarrow> server" where
  "socket_emit sid ev s = s\<lparr>trace := trace s @ [Deliver sid ev]\<rparr>"

text \<open>\<^verbatim>\<open>socket.emit\<close> after an \<^verbatim>\<open>await\<close>: the socket may have closed in the meantime, and
  Socket.io drops a packet written to a socket that is not connected.\<close>

definition socket_emit_late :: "socket_id \<Rightarrow> event \<Rightarrow> server \<Rightarrow> server" where
  "socket_emit_late sid ev s = (if find_socket sid s = None then s else socket_emit sid ev s)"

text \<open>\<^verbatim>\<open>io.emit\<close>: one packet to every socket connected to the namespace.\<close>

definition io_emit :: "event \<Rightarrow> server \<Rightarrow> server" where
  "io_emit ev s = s\<lparr>trace := trace s @ map (\<lambda>k. Deliver (sock_id k) ev) (sockets s)\<rparr>"

text \<open>\<^verbatim>\<open>socket.broadcast.emit\<close>: every connected socket but this one.\<close>

definition broadcast_emit :: "socket_id \<Rightarrow> event \<Rightarrow> server \<Rightarrow> server" where
  "broadcast_emit sid ev s =
     s\<lparr>trace := trace s @ map (\<lambda>k. Deliver (sock_id k) ev)
                            (filter (\<lambda>k. sock_id k \<noteq> sid) (sockets s))\<rparr>"

definition map_set :: "socket_id \<Rightarrow> object_id \<Rightarrow> server \<Rightarrow> server" where
  "map_set sid uid s =
     s\<lparr>connectedUsers := AList.update sid uid (connectedUsers s),
       trace := trace s @ [RegistrySet sid uid]\<rparr>"

definition map_delete :: "socket_id \<Rightarrow> server \<Rightarrow> server" where
  "map_delete sid s =
     s\<lparr>connectedUsers := AList.delete sid (connectedUsers s),
       trace := trace s @ [RegistryDelete sid]\<rparr>"

text \<open>Lines 353-354: the two assignments to the socket object.\<close>

definition set_session :: "socket_id \<Rightarrow> object_id \<Rightarrow> string \<Rightarrow> server \<Rightarrow> server" where
  "set_session sid uid nick s =
     s\<lparr>sockets := map (\<lambda>k. if sock_id k = sid then k\<lparr>session := Some (uid, nick)\<rparr> else k)
                       (sockets s)\<rparr>"

subsection \<open>The two collections\<close>

text \<open>\<^verbatim>\<open>User.findById\<close>: throws (\<open>None\<close>) when the database call fails, and returns null
  (\<open>Some None\<close>) when no user has this id.\<close>

definition user_findById :: "env \<Rightarrow> object_id \<Rightarrow> server \<Rightarrow> user option option" where
  "user_findById e uid s = (if find_ok e then Some (map_of (users s) uid) else None)"

definition user_save :: "env \<Rightarrow> object_id \<Rightarrow> user \<Rightarrow> server \<Rightarrow> server option" where
  "user_save e uid u s =
     (if user_save_ok e
      then Some (s\<lparr>users := AList.update uid u (users s), trace := trace s @ [UserSaved uid]\<rparr>)
      else None)"

text \<open>\<^verbatim>\<open>Message.find().sort({ timestamp: -1 }).limit(50).lean()\<close>. MongoDB leaves the order of
  documents with equal timestamps open; \<open>sort_key\<close> keeps them in insertion order.\<close>

definition message_find_recent :: "env \<Rightarrow> server \<Rightarrow> message list option" where
  "message_find_recent e s =
     (if query_ok e then Some (take 50 (sort_key (\<lambda>m. - m_timestamp m) (messages s)))
      else None)"

text \<open>The validation \<^verbatim>\<open>message.save()\<close> runs: \<^verbatim>\<open>nickname\<close> and \<^verbatim>\<open>text\<close> are
  \<^verbatim>\<open>required: true\<close> strings, and Mongoose's required validator refuses the empty string.
  \<^verbatim>\<open>userId\<close> comes from the session and is always there.\<close>

definition message_valid :: "message \<Rightarrow> bool" where
  "message_valid m = (m_nickname m \<noteq> [] \<and> m_text m \<noteq> [])"

definition message_save :: "env \<Rightarrow> message \<Rightarrow> server \<Rightarrow> server option" where
  "message_save e m s =
     (if message_valid m \<and> message_save_ok e
      then Some (s\<lparr>messages := messages s @ [m], trace := trace s @ [MessageSaved m]\<rparr>)
      else None)"

subsection \<open>The handlers\<close>

text \<open>Lines 418-424. The handler runs after the socket has left the namespace.\<close>

definition on_disconnect :: "socket \<Rightarrow> server \<Rightarrow> server" where
  "on_disconnect k s =
     (case session k of
        None \<Rightarrow> s
      | Some (uid, nick) \<Rightarrow> map_delete (sock_id k) (io_emit (UserLeft nick) s))"

text \<open>\<^verbatim>\<open>socket.disconnect()\<close> and a close of the transport both end in Socket.io's
  \<^verbatim>\<open>_onclose\<close>: nothing happens on a socket that is not connected; otherwise the socket
  leaves the namespace and then its \<^verbatim>\<open>disconnect\<close> handler runs.\<close>

definition socket_disconnect :: "socket_id \<Rightarrow> server \<Rightarrow> server" where
  "socket_disconnect sid s =
     (case find_socket sid s of
        None \<Rightarrow> s
      | Some k \<Rightarrow>
          on_disconnect k
            (s\<lparr>sockets := filter (\<lambda>x. sock_id x \<noteq> sid) (sockets s),
               trace := trace s @ [Disconnected sid]\<rparr>))"

text \<open>The catch block of the authenticate handler, lines 374-378.\<close>

definition auth_failed :: "socket_id \<Rightarrow> server \<Rightarrow> server" where
  "auth_failed sid s = socket_disconnect sid (socket_emit sid (AuthError InvalidToken) s)"

text \<open>Lines 343-379, run from the event to the end with nothing in between.\<close>

definition on_authenticate :: "env \<Rightarrow> socket \<Rightarrow> string \<Rightarrow> server \<Rightarrow> server" where
  "on_authenticate e k token s =
     (let sid = sock_id k in
      case jwt_verify e token of
        None \<Rightarrow> auth_failed sid s
      | Some uid \<Rightarrow>
          (case user_findById e uid s of
             None \<Rightarrow> auth_failed sid s
           | Some None \<Rightarrow> socket_disconnect sid (socket_emit sid (AuthError UserNotFound) s)
           | Some (Some u) \<Rightarrow>
               let s1 = map_set sid uid (set_session sid uid (u_nickname u) s) in
               (case user_save e uid (u\<lparr>u_lastSeen := now e\<rparr>) s1 of
                  None \<Rightarrow> auth_failed sid s1
                | Some s2 \<Rightarrow>
                    (case message_find_recent e s2 of
                       None \<Rightarrow> auth_failed sid s2
                     | Some msgs \<Rightarrow>
                         io_emit (UserJoined (u_nickname u))
                           (socket_emit sid (Authenticated (u_nickname u))
                              (socket_emit sid (MessageHistory (rev msgs)) s2))))))"

text \<open>Lines 382-408, run from the event to the end with nothing in between. The payload is \<open>Some body\<close> when \<^verbatim>\<open>messageData.text\<close> is a string, and
  \<open>None\<close> when there is no text to store (no \<^verbatim>\<open>messageData\<close>, where reading \<^verbatim>\<open>.text\<close> throws
  inside the try block, or no \<^verbatim>\<open>text\<close> in it, which the required validator refuses).\<close>

definition new_Message :: "env \<Rightarrow> object_id \<Rightarrow> string \<Rightarrow> string \<Rightarrow> message" where
  "new_Message e uid nick body =
     \<lparr>m_id = fresh_id e, m_userId = uid, m_nickname = nick, m_text = body,
      m_timestamp = now e\<rparr>"

definition on_send_message :: "env \<Rightarrow> socket \<Rightarrow> string option \<Rightarrow> server \<Rightarrow> server" where
  "on_send_message e k messageData s =
     (case session k of
        None \<Rightarrow> socket_emit (sock_id k) (Error NotAuthorized) s
      | Some (uid, nick) \<Rightarrow>
          (case messageData of
             None \<Rightarrow> socket_emit (sock_id k) (Error SendFailed) s
           | Some body \<Rightarrow>
               (case message_save e (new_Message e uid nick body) s of
                  None \<Rightarrow> socket_emit (sock_id k) (Error SendFailed) s
                | Some s1 \<Rightarrow> io_emit (NewMessage (new_Message e uid nick body)) s1)))"

text \<open>Lines 411-415.\<close>

definition on_typing :: "socket \<Rightarrow> server \<Rightarrow> server" where
  "on_typing k s =
     (case session k of
        None \<Rightarrow> s
      | Some (uid, nick) \<Rightarrow> broadcast_emit (sock_id k) (UserTyping nick) s)"

text \<open>Line 339: a new socket joins the namespace with no identity. Socket.io gives every
  socket an id of its own: not the id of a connected socket, and not the id of a socket that
  has closed.\<close>

definition on_connection :: "socket_id \<Rightarrow> server \<Rightarrow> server" where
  "on_connection sid s =
     (if find_socket sid s = None \<and> Disconnected sid \<notin> set (trace s)
      then s\<lparr>sockets := sockets s @ [\<lparr>sock_id = sid, session = None\<rparr>]\<rparr>
      else s)"

subsection \<open>The handlers across their awaits\<close>

text \<open>The same two handlers, cut at their \<^verbatim>\<open>await\<close>s. The part before the first \<^verbatim>\<open>await\<close> runs
  when the event arrives: \<^verbatim>\<open>jwt.verify\<close> is synchronous (line 345), and so are the guard of
  \<^verbatim>\<open>send_message\<close> and the construction of the message (lines 383-392); the validation of
  the message is part of \<^verbatim>\<open>save()\<close>.\<close>

definition suspend :: "suspended \<Rightarrow> server \<Rightarrow> server" where
  "suspend c s = s\<lparr>pending := pending s @ [c]\<rparr>"

definition authenticate_begin :: "env \<Rightarrow> socket \<Rightarrow> string \<Rightarrow> server \<Rightarrow> server" where
  "authenticate_begin e k token s =
     (case jwt_verify e token of
        None \<Rightarrow> auth_failed (sock_id k) s
      | Some uid \<Rightarrow> suspend (AwaitFindById (sock_id k) uid) s)"

definition send_message_begin :: "env \<Rightarrow> socket \<Rightarrow> string option \<Rightarrow> server \<Rightarrow> server" where
  "send_message_begin e k messageData s =
     (case session k of
        None \<Rightarrow> socket_emit (sock_id k) (Error NotAuthorized) s
      | Some (uid, nick) \<Rightarrow>
          (case messageData of
             None \<Rightarrow> socket_emit (sock_id k) (Error SendFailed) s
           | Some body \<Rightarrow> suspend (AwaitMessageSave (sock_id k) (new_Message e uid nick body)) s))"

text \<open>The catch block of the authenticate handler when it runs after an \<^verbatim>\<open>await\<close>:
  \<^verbatim>\<open>socket.disconnect()\<close> does nothing on a socket that has closed.\<close>

definition auth_failed_late :: "socket_id \<Rightarrow> server \<Rightarrow> server" where
  "auth_failed_late sid s =
     socket_disconnect sid (socket_emit_late sid (AuthError InvalidToken) s)"

text \<open>The rest of a handler from the \<^verbatim>\<open>await\<close> it waits at to its next \<^verbatim>\<open>await\<close> or its end.
  The assignments of lines 353-354 go to the socket object, which is in \<open>sockets\<close> only
  while it is connected; \<^verbatim>\<open>connectedUsers.set\<close> (line 355) runs whether or not it is.\<close>

fun resume :: "env \<Rightarrow> suspended \<Rightarrow> server \<Rightarrow> server" where
  "resume e (AwaitFindById sid uid) s =
     (case user_findById e uid s of
        None \<Rightarrow> auth_failed_late sid s
      | Some None \<Rightarrow> socket_disconnect sid (socket_emit_late sid (AuthError UserNotFound) s)
      | Some (Some u) \<Rightarrow>
          suspend (AwaitUserSave sid uid (u\<lparr>u_lastSeen := now e\<rparr>))
            (map_set sid uid (set_session sid uid (u_nickname u) s)))"
| "resume e (AwaitUserSave sid uid u) s =
     (case user_save e uid u s of
        None \<Rightarrow> auth_failed_late sid s
      | Some s2 \<Rightarrow> suspend (AwaitMessages sid (u_nickname u)) s2)"
| "resume e (AwaitMessages sid nick) s =
     (case message_find_recent e s of
        None \<Rightarrow> auth_failed_late sid s
      | Some msgs \<Rightarrow>
          io_emit (UserJoined nick)
            (socket_emit_late sid (Authenticated nick)
               (socket_emit_late sid (MessageHistory (rev msgs)) s)))"
| "resume e (AwaitMessageSave sid m) s =
     (case message_save e m s of
        None \<Rightarrow> socket_emit_late sid (Error SendFailed) s
      | Some s1 \<Rightarrow> io_emit (NewMessage m) s1)"

fun owner :: "suspended \<Rightarrow> socket_id" where
  "owner (AwaitFindById sid uid) = sid"
| "owner (AwaitUserSave sid uid u) = sid"
| "owner (AwaitMessages sid nick) = sid"
| "owner (AwaitMessageSave sid m) = sid"

text \<open>The database call of the \<open>n\<close>-th suspended handler settles: the handler leaves the list
  and runs on.\<close>

definition settle :: "env \<Rightarrow> nat \<Rightarrow> server \<Rightarrow> server" where
  "settle e n s =
     (if n < length (pending s)
      then resume e (pending s ! n)
             (s\<lparr>pending := take n (pending s) @ drop (Suc n) (pending s)\<rparr>)
      else s)"

text \<open>What can happen next on a socket, and the dispatch: an event reaches its handler only on
  a connected socket and runs it up to its first \<^verbatim>\<open>await\<close>; \<open>Settle n\<close> resumes the \<open>n\<close>-th
  suspended handler, which must be one of this socket. Between a handler's event and its
  \<open>Settle\<close> steps any other step can take place, a \<open>Close\<close> of the same socket included.\<close>

datatype inbound =
    Connect
  | Authenticate string
  | SendMessage "string option"
  | Typing
  | Close
  | Settle nat

definition step :: "env \<Rightarrow> socket_id \<Rightarrow> inbound \<Rightarrow> server \<Rightarrow> server" where
  "step e sid inp s =
     (case inp of
        Connect \<Rightarrow> on_connection sid s
      | Close \<Rightarrow> socket_disconnect sid s
      | Authenticate token \<Rightarrow>
          (case find_socket sid s of None \<Rightarrow> s | Some k \<Rightarrow> authenticate_begin e k token s)
      | SendMessage messageData \<Rightarrow>
          (case find_socket sid s of None \<Rightarrow> s | Some k \<Rightarrow> send_message_begin e k messageData s)
      | Typing \<Rightarrow>
          (case find_socket sid s of None \<Rightarrow> s | Some k \<Rightarrow> on_typing k s)
      | Settle n \<Rightarrow>
          (if n < length (pending s) \<and> owner (pending s ! n) = sid then settle e n s else s))"

text \<open>The events delivered to one socket, in order, and what a trace broadcast.\<close>

definition delivered_to :: "socket_id \<Rightarrow> effect list \<Rightarrow> event list" where
  "delivered_to sid tr = concat (map (\<lambda>x. case x of Deliver r ev \<Rightarrow> (if r = sid then [ev] else []) | _ \<Rightarrow> []) tr)"

text \<open>The sockets that were sent a given event in a trace.\<close>

definition recipients :: "event \<Rightarrow> effect list \<Rightarrow> socket_id list" where
  "recipients ev tr = concat (map (\<lambda>x. case x of Deliver r ev' \<Rightarrow> (if ev' = ev then [r] else []) | _ \<Rightarrow> []) tr)"

text \<open>Socket ids are distinct, and every key of \<^verbatim>\<open>connectedUsers\<close> is the id of a connected
  socket that has an identity. Handlers that run without interruption keep this; a socket
  that closes between an \<^verbatim>\<open>authenticate\<close> and the return of \<^verbatim>\<open>findById\<close> breaks the second
  part.\<close>

definition registry_live :: "server \<Rightarrow> bool" where
  "registry_live s =
     (distinct (map sock_id (sockets s)) \<and>
      (\<forall>sid \<in> set (map fst (connectedUsers s)).
         \<exists>k \<in> set (sockets s). sock_id k = sid \<and> session k \<noteq> None))"

subsection \<open>The claim about trimming\<close>

text \<open>The handler never trims. To state what the specification says about trimmed text,
  \<open>spec_trim\<close> follows the specification's word: JavaScript's \<^verbatim>\<open>trim\<close> on the ASCII white
  space characters.\<close>

definition is_space :: "char \<Rightarrow> bool" where
  "is_space c = (c \<in> set [CHR '' '', CHR 0x09, CHR 0x0A, CHR 0x0B, CHR 0x0C, CHR 0x0D])"

definition spec_trim :: "string \<Rightarrow> string" where
  "spec_trim str = rev (dropWhile is_space (rev (dropWhile is_space str)))"

subsection \<open>A small instance\<close>

text \<open>Two users, two sockets: socket 1 has authenticated as alice, socket 2 has not
  authenticated. The tokens \<open>''alice-token''\<close> and \<open>''bob-token''\<close> verify; \<open>''ghost-token''\<close>
  verifies and names an id that no user has; every other token is refused.\<close>

definition alice :: user where
  "alice = \<lparr>u_nickname = ''alice'', u_email = None, u_password = ''hash-a'',
            u_createdAt = 0, u_lastSeen = 0\<rparr>"

definition bob :: user where
  "bob = \<lparr>u_nickname = ''bob'', u_email = None, u_password = ''hash-b'',
          u_createdAt = 0, u_lastSeen = 0\<rparr>"

definition env0 :: env where
  "env0 = \<lparr>jwt_verify = (\<lambda>t. if t = ''alice-token'' then Some 7
                             else if t = ''bob-token'' then Some 9
                             else if t = ''ghost-token'' then Some 8 else None),
           now = 100, fresh_id = 1,
           find_ok = True, user_save_ok = True, query_ok = True, message_save_ok = True\<rparr>"

definition sock1 :: socket where
  "sock1 = \<lparr>sock_id = 1, session = Some (7, ''alice'')\<rparr>"

definition sock2 :: socket where
  "sock2 = \<lparr>sock_id = 2, session = None\<rparr>"

definition lobby :: server where
  "lobby = \<lparr>sockets = [sock1, sock2], connectedUsers = [(1, 7)],
            users = [(7, alice), (9, bob)], messages = [], trace = [], pending = []\<rparr>"

text \<open>Socket 2 sends \<^verbatim>\<open>authenticate\<close> with alice's token and closes while \<^verbatim>\<open>findById\<close> is
  awaited; then the three database calls of the handler settle.\<close>

definition stale :: server where
  "stale =
     step env0 2 (Settle 0)
       (step env0 2 (Settle 0)
          (step env0 2 (Settle 0)
             (step env0 2 Close
                (step env0 2 (Authenticate ''alice-token'') lobby))))"

text \<open>Stored messages: one stored first with the later timestamp and one stored second with
  the earlier timestamp, and sixty messages with timestamps 0 to 59 in storage order.\<close>

definition stored_first :: message where
  "stored_first = \<lparr>m_id = 1, m_userId = 7, m_nickname = ''alice'', m_text = ''first'',
                   m_timestamp = 5\<rparr>"

definition stored_second :: message where
  "stored_second = \<lparr>m_id = 2, m_userId = 7, m_nickname = ''alice'', m_text = ''second'',
                    m_timestamp = 3\<rparr>"

definition backlog :: server where
  "backlog = lobby\<lparr>messages := [stored_first, stored_second]\<rparr>"

definition sixty :: "message list" where
  "sixty = map (\<lambda>i. \<lparr>m_id = i, m_userId = 7, m_nickname = ''alice'', m_text = ''m'',
                      m_timestamp = int i\<rparr>) [0..<60]"

section \<open>Facts about the model\<close>

subsection \<open>Lookups, sorting and traces\<close>

lemma find_socket_mem:
  "distinct (map sock_id xs) \<Longrightarrow> k \<in> set xs \<Longrightarrow> find (\<lambda>x. sock_id x = sock_id k) xs = Some k"
  by (induction xs) (auto simp: rev_image_eqI)

lemma find_socket_SomeD:
  "find_socket sid s = Some k \<Longrightarrow> k \<in> set (sockets s) \<and> sock_id k = sid"
  unfolding find_socket_def by (auto simp: find_Some_iff)

lemma insort_key_last:
  "\<forall>y \<in> set ys. f y < f x \<Longrightarrow> insort_key f x ys = ys @ [x]"
  by (induction ys) auto

lemma sort_key_neg_strict:
  "sorted_wrt (<) (map m_timestamp ms) \<Longrightarrow> sort_key (\<lambda>m. - m_timestamp m) ms = rev ms"
  by (induction ms) (auto simp: insort_key_last)

lemma history_sorted:
  "sorted (map m_timestamp (rev (take n (sort_key (\<lambda>m. - m_timestamp m) ms))))"
proof -
  have "sorted (map (\<lambda>m. - m_timestamp m) (sort_key (\<lambda>m. - m_timestamp m) ms))" by simp
  then have "sorted (map (\<lambda>m. - m_timestamp m) (take n (sort_key (\<lambda>m. - m_timestamp m) ms)))"
    by (simp add: take_map[symmetric] del: sorted_sort_key)
  then show ?thesis
    by (simp add: rev_map[symmetric] sorted_wrt_rev sorted_wrt_map del: sorted_sort_key) 
qed

lemma history_strict:
  "sorted_wrt (<) (map m_timestamp ms) \<Longrightarrow>
   rev (take n (sort_key (\<lambda>m. - m_timestamp m) ms)) = drop (length ms - n) ms"
  by (simp add: sort_key_neg_strict take_rev)

lemma delivered_to_append [simp]:
  "delivered_to sid (xs @ ys) = delivered_to sid xs @ delivered_to sid ys"
  by (simp add: delivered_to_def)

lemma recipients_append [simp]:
  "recipients ev (xs @ ys) = recipients ev xs @ recipients ev ys"
  by (simp add: recipients_def)

lemma recipients_broadcast [simp]:
  "recipients ev (map (\<lambda>k. Deliver (sock_id k) ev) xs) = map sock_id xs"
  by (induction xs) (auto simp: recipients_def)

lemma delivered_to_broadcast:
  "distinct (map sock_id xs) \<Longrightarrow>
   delivered_to sid (map (\<lambda>k. Deliver (sock_id k) ev) xs) = (if sid \<in> sock_id ` set xs then [ev] else [])"
  by (induction xs) (auto simp: delivered_to_def)

subsection \<open>What each handler does\<close>

lemma on_send_message_saved:
  assumes "session k = Some (uid, nick)"
    and "message_save e (new_Message e uid nick body) s = Some s1"
  shows "on_send_message e k (Some body) s =
           s\<lparr>messages := messages s @ [new_Message e uid nick body],
             trace := trace s @ MessageSaved (new_Message e uid nick body) #
                      map (\<lambda>r. Deliver (sock_id r) (NewMessage (new_Message e uid nick body))) (sockets s)\<rparr>"
  using assms by (auto simp: on_send_message_def message_save_def io_emit_def split: if_splits)


lemma registry_keys_connected:
  "registry_live s \<Longrightarrow> set (map fst (connectedUsers s)) \<subseteq> set (map sock_id (sockets s))"
  by (auto simp: registry_live_def) force

lemma deliver_map_upd:
  "map (\<lambda>r. Deliver (sock_id r) ev)
       (map (\<lambda>k. if sock_id k = sid then k\<lparr>session := v\<rparr> else k) xs) =
   map (\<lambda>r. Deliver (sock_id r) ev) xs"
  by (induction xs) auto

lemma on_authenticate_success:
  assumes "jwt_verify e token = Some uid"
    and "user_findById e uid s = Some (Some u)"
    and "user_save_ok e"
    and "message_find_recent e s = Some msgs"
  shows "on_authenticate e k token s =
           s\<lparr>sockets := map (\<lambda>x. if sock_id x = sock_id k
                                  then x\<lparr>session := Some (uid, u_nickname u)\<rparr> else x) (sockets s),
             connectedUsers := AList.update (sock_id k) uid (connectedUsers s),
             users := AList.update uid (u\<lparr>u_lastSeen := now e\<rparr>) (users s),
             trace := trace s @
               [RegistrySet (sock_id k) uid, UserSaved uid,
                Deliver (sock_id k) (MessageHistory (rev msgs)),
                Deliver (sock_id k) (Authenticated (u_nickname u))] @
               map (\<lambda>r. Deliver (sock_id r) (UserJoined (u_nickname u))) (sockets s)\<rparr>"
  using assms
  by (simp add: on_authenticate_def user_save_def message_find_recent_def map_set_def
      set_session_def io_emit_def socket_emit_def deliver_map_upd Let_def split: if_splits)

lemma delivered_to_Cons_Deliver [simp]:
  "delivered_to sid (Deliver r ev # tr) = (if r = sid then ev # delivered_to sid tr else delivered_to sid tr)"
  by (simp add: delivered_to_def)

lemma delivered_to_Cons_other [simp]:
  "delivered_to sid (RegistrySet a b # tr) = delivered_to sid tr"
  "delivered_to sid (RegistryDelete a # tr) = delivered_to sid tr"
  "delivered_to sid (UserSaved b # tr) = delivered_to sid tr"
  "delivered_to sid (MessageSaved m # tr) = delivered_to sid tr"
  "delivered_to sid (Disconnected a # tr) = delivered_to sid tr"
  "delivered_to sid [] = []"
  by (simp_all add: delivered_to_def)

lemma recipients_Cons_Deliver [simp]:
  "recipients ev (Deliver r ev' # tr) = (if ev' = ev then r # recipients ev tr else recipients ev tr)"
  by (simp add: recipients_def)

lemma recipients_Cons_other [simp]:
  "recipients ev (RegistrySet a b # tr) = recipients ev tr"
  "recipients ev (RegistryDelete a # tr) = recipients ev tr"
  "recipients ev (UserSaved b # tr) = recipients ev tr"
  "recipients ev (MessageSaved m # tr) = recipients ev tr"
  "recipients ev (Disconnected a # tr) = recipients ev tr"
  "recipients ev [] = []"
  by (simp_all add: recipients_def)

lemma message_find_recent_bounds:
  assumes "message_find_recent e s = Some msgs"
  shows "length (rev msgs) \<le> 50 \<and> sorted (map m_timestamp (rev msgs))"
  using assms history_sorted[of 50 "messages s"]
  by (auto simp: message_find_recent_def split: if_splits)

lemma message_find_recent_strict:
  assumes "message_find_recent e s = Some msgs"
    and "sorted_wrt (<) (map m_timestamp (messages s))"
  shows "rev msgs = drop (length (messages s) - 50) (messages s)"
  using assms history_strict[of "messages s" 50]
  by (auto simp: message_find_recent_def split: if_splits)

lemma find_socket_connected:
  "registry_live s \<Longrightarrow> k \<in> set (sockets s) \<Longrightarrow> find_socket (sock_id k) s = Some k"
  by (simp add: registry_live_def find_socket_def find_socket_mem)

lemma on_disconnect_identified:
  "session k = Some (uid, nick) \<Longrightarrow>
   on_disconnect k s =
     s\<lparr>connectedUsers := AList.delete (sock_id k) (connectedUsers s),
       trace := trace s @ map (\<lambda>r. Deliver (sock_id r) (UserLeft nick)) (sockets s) @
                [RegistryDelete (sock_id k)]\<rparr>"
  by (simp add: on_disconnect_def io_emit_def map_delete_def)

lemma socket_disconnect_identified:
  assumes "find_socket sid s = Some k" and "session k = Some (uid, nick)"
  shows "socket_disconnect sid s =
     s\<lparr>sockets := filter (\<lambda>x. sock_id x \<noteq> sid) (sockets s),
       connectedUsers := AList.delete sid (connectedUsers s),
       trace := trace s @ Disconnected sid #
                map (\<lambda>r. Deliver (sock_id r) (UserLeft nick))
                    (filter (\<lambda>x. sock_id x \<noteq> sid) (sockets s)) @
                [RegistryDelete sid]\<rparr>"
  using assms find_socket_SomeD[OF assms(1)]
  by (simp add: socket_disconnect_def on_disconnect_identified)

lemma socket_disconnect_anonymous:
  assumes "find_socket sid s = Some k" and "session k = None"
  shows "socket_disconnect sid s =
     s\<lparr>sockets := filter (\<lambda>x. sock_id x \<noteq> sid) (sockets s),
       trace := trace s @ [Disconnected sid]\<rparr>"
  using assms by (simp add: socket_disconnect_def on_disconnect_def)

lemma registry_key_absent:
  assumes "registry_live s" and "k \<in> set (sockets s)" and "session k = None"
  shows "map_of (connectedUsers s) (sock_id k) = None"
proof (rule ccontr)
  assume "map_of (connectedUsers s) (sock_id k) \<noteq> None"
  then have "sock_id k \<in> set (map fst (connectedUsers s))"
    by (auto simp: map_of_eq_None_iff)
  then obtain k' where k': "k' \<in> set (sockets s)" "sock_id k' = sock_id k" "session k' \<noteq> None"
    using assms(1) by (auto simp: registry_live_def)
  have "distinct (map sock_id (sockets s))" using assms(1) by (simp add: registry_live_def)
  then have "k' = k" using k'(1,2) assms(2) by (meson distinct_map inj_onD)
  with k'(3) assms(3) show False by simp
qed

subsection \<open>Handlers that run without interruption keep the invariant\<close>

lemma registry_live_trace [simp]: "registry_live (s\<lparr>trace := t\<rparr>) = registry_live s"
  by (simp add: registry_live_def)

lemma registry_live_pending [simp]: "registry_live (s\<lparr>pending := t\<rparr>) = registry_live s"
  by (simp add: registry_live_def)

lemma registry_live_messages [simp]: "registry_live (s\<lparr>messages := t\<rparr>) = registry_live s"
  by (simp add: registry_live_def)

lemma registry_live_users [simp]: "registry_live (s\<lparr>users := t\<rparr>) = registry_live s"
  by (simp add: registry_live_def)

lemma registry_live_connection:
  "registry_live s \<Longrightarrow> registry_live (on_connection sid s)"
  by (auto simp: registry_live_def on_connection_def find_socket_def find_None_iff)

lemma registry_liveI:
  assumes "distinct (map sock_id (sockets s))"
    and "\<And>sid. sid \<in> fst ` set (connectedUsers s) \<Longrightarrow>
           \<exists>k \<in> set (sockets s). sock_id k = sid \<and> session k \<noteq> None"
  shows "registry_live s"
  using assms by (simp add: registry_live_def)

lemma registry_live_distinct: "registry_live s \<Longrightarrow> distinct (map sock_id (sockets s))"
  by (simp add: registry_live_def)

lemma registry_live_key:
  "registry_live s \<Longrightarrow> sid \<in> fst ` set (connectedUsers s) \<Longrightarrow>
   \<exists>k \<in> set (sockets s). sock_id k = sid \<and> session k \<noteq> None"
  by (auto simp: registry_live_def)

lemma registry_live_leave:
  assumes "registry_live s" and "sid \<notin> fst ` set keys" and "set keys \<subseteq> set (connectedUsers s)"
  shows "registry_live (s\<lparr>sockets := filter (\<lambda>x. sock_id x \<noteq> sid) (sockets s),
                          connectedUsers := keys\<rparr>)"
proof (rule registry_liveI)
  show "distinct (map sock_id (sockets (s\<lparr>sockets := filter (\<lambda>x. sock_id x \<noteq> sid) (sockets s),
                          connectedUsers := keys\<rparr>)))"
    using registry_live_distinct[OF assms(1)] by (simp add: distinct_map_filter)
next
  fix a
  assume "a \<in> fst ` set (connectedUsers (s\<lparr>sockets := filter (\<lambda>x. sock_id x \<noteq> sid) (sockets s),
                          connectedUsers := keys\<rparr>))"
  then have a: "a \<in> fst ` set keys" by simp
  then have "a \<in> fst ` set (connectedUsers s)" using assms(3) by auto
  then obtain k where k: "k \<in> set (sockets s)" "sock_id k = a" "session k \<noteq> None"
    using registry_live_key[OF assms(1)] by blast
  have "a \<noteq> sid" using a assms(2) by auto
  then show "\<exists>k \<in> set (sockets (s\<lparr>sockets := filter (\<lambda>x. sock_id x \<noteq> sid) (sockets s),
                          connectedUsers := keys\<rparr>)). sock_id k = a \<and> session k \<noteq> None"
    using k by auto
qed

lemma registry_live_socket_disconnect:
  assumes "registry_live s"
  shows "registry_live (socket_disconnect sid s)"
proof (cases "find_socket sid s")
  case None
  then show ?thesis using assms by (simp add: socket_disconnect_def)
next
  case (Some k)
  note k = find_socket_SomeD[OF Some]
  show ?thesis
  proof (cases "session k")
    case None
    have "sid \<notin> fst ` set (connectedUsers s)"
      using registry_key_absent[OF assms _ None] k by (simp add: map_of_eq_None_iff)
    then have "registry_live (s\<lparr>sockets := filter (\<lambda>x. sock_id x \<noteq> sid) (sockets s),
                          connectedUsers := connectedUsers s\<rparr>)"
      using assms by (intro registry_live_leave) auto
    then show ?thesis
      unfolding socket_disconnect_anonymous[OF Some None] by simp
  next
    case (Some p)
    obtain uid nick where p: "session k = Some (uid, nick)" using Some by (cases p) simp
    have "registry_live (s\<lparr>sockets := filter (\<lambda>x. sock_id x \<noteq> sid) (sockets s),
                          connectedUsers := AList.delete sid (connectedUsers s)\<rparr>)"
      using assms by (intro registry_live_leave) (auto simp: AList.delete_eq)
    then show ?thesis
      unfolding socket_disconnect_identified[OF \<open>find_socket sid s = Some k\<close> p] by simp
  qed
qed

lemma registry_live_identify:
  assumes "registry_live s" and "k \<in> set (sockets s)"
  shows "registry_live (map_set (sock_id k) uid (set_session (sock_id k) uid nick s))"
proof (rule registry_liveI)
  let ?upd = "\<lambda>x. if sock_id x = sock_id k then x\<lparr>session := Some (uid, nick)\<rparr> else x"
  let ?s = "map_set (sock_id k) uid (set_session (sock_id k) uid nick s)"
  have sk: "sockets ?s = map ?upd (sockets s)"
    by (simp add: map_set_def set_session_def)
  have ids: "map sock_id (map ?upd (sockets s)) = map sock_id (sockets s)"
    by (induction "sockets s") (auto simp: comp_def)
  show "distinct (map sock_id (sockets ?s))"
    using registry_live_distinct[OF assms(1)] by (simp only: sk ids)
  fix a
  assume "a \<in> fst ` set (connectedUsers ?s)"
  then have "a \<in> set (map fst (AList.update (sock_id k) uid (connectedUsers s)))"
    by (simp add: map_set_def set_session_def)
  then have a: "a = sock_id k \<or> a \<in> fst ` set (connectedUsers s)"
    by (auto simp: AList.update_keys split: if_splits)
  show "\<exists>x \<in> set (sockets ?s). sock_id x = a \<and> session x \<noteq> None"
  proof (cases "a = sock_id k")
    case True
    have "?upd k \<in> set (sockets ?s)" using assms(2) unfolding sk set_map by (rule imageI)
    then show ?thesis using True by (intro bexI[of _ "?upd k"]) auto
  next
    case False
    with a obtain x where x: "x \<in> set (sockets s)" "sock_id x = a" "session x \<noteq> None"
      using registry_live_key[OF assms(1)] by blast
    have "?upd x \<in> set (sockets ?s)" using x(1) unfolding sk set_map by (rule imageI)
    then show ?thesis using False x by (intro bexI[of _ "?upd x"]) auto
  qed
qed

lemma registry_live_auth_failed:
  "registry_live s \<Longrightarrow> registry_live (auth_failed sid s)"
  by (simp add: auth_failed_def socket_emit_def registry_live_socket_disconnect)

lemma registry_live_on_authenticate:
  assumes "registry_live s" and "k \<in> set (sockets s)"
  shows "registry_live (on_authenticate e k token s)"
proof (cases "jwt_verify e token")
  case None
  then show ?thesis using assms(1) by (simp add: on_authenticate_def Let_def registry_live_auth_failed)
next
  case (Some uid)
  note jwt = this
  show ?thesis
  proof (cases "user_findById e uid s")
    case None
    then show ?thesis using assms(1) jwt by (simp add: on_authenticate_def Let_def registry_live_auth_failed)
  next
    case (Some found)
    note found = this
    show ?thesis
    proof (cases found)
      case None
      then show ?thesis using assms(1) jwt found
        by (simp add: on_authenticate_def Let_def socket_emit_def registry_live_socket_disconnect)
    next
      case (Some u)
      let ?s1 = "map_set (sock_id k) uid (set_session (sock_id k) uid (u_nickname u) s)"
      have l1: "registry_live ?s1" using assms by (rule registry_live_identify)
      show ?thesis
        using jwt found Some l1
        by (auto simp: on_authenticate_def Let_def user_save_def message_find_recent_def
            io_emit_def socket_emit_def registry_live_auth_failed split: if_splits)
    qed
  qed
qed

lemma registry_live_on_send_message:
  "registry_live s \<Longrightarrow> registry_live (on_send_message e k messageData s)"
  by (auto simp: on_send_message_def socket_emit_def io_emit_def message_save_def
      split: option.splits if_splits)

lemma registry_live_on_typing:
  "registry_live s \<Longrightarrow> registry_live (on_typing k s)"
  by (auto simp: on_typing_def broadcast_emit_def split: option.splits)

lemma registry_live_initial:
  "sockets s = [] \<Longrightarrow> connectedUsers s = [] \<Longrightarrow> registry_live s"
  by (simp add: registry_live_def)

subsection \<open>A rejected authenticate, and a closing socket\<close>

lemma delivered_to_others:
  "delivered_to sid (map (\<lambda>r. Deliver (sock_id r) ev) (filter (\<lambda>x. sock_id x \<noteq> sid) xs)) = []"
  by (induction xs) auto

lemma on_authenticate_rejected:
  assumes "\<forall>uid u. jwt_verify e token = Some uid \<longrightarrow> user_findById e uid s \<noteq> Some (Some u)"
  shows "on_authenticate e k token s =
           socket_disconnect (sock_id k)
             (socket_emit (sock_id k)
                (AuthError (if jwt_verify e token \<noteq> None \<and> find_ok e then UserNotFound
                            else InvalidToken)) s)"
  using assms
  by (auto simp: on_authenticate_def Let_def auth_failed_def user_findById_def split: option.splits if_splits)

lemma socket_disconnect_trace:
  assumes "registry_live s" and "k \<in> set (sockets s)"
  shows "trace (socket_disconnect (sock_id k) s) =
           trace s @ Disconnected (sock_id k) #
           (case session k of
              None \<Rightarrow> []
            | Some (uid, nick) \<Rightarrow>
                map (\<lambda>r. Deliver (sock_id r) (UserLeft nick))
                    (filter (\<lambda>x. sock_id x \<noteq> sock_id k) (sockets s)) @
                [RegistryDelete (sock_id k)])"
proof (cases "session k")
  case None
  then show ?thesis
    by (simp add: socket_disconnect_anonymous[OF find_socket_connected[OF assms] None])
next
  case (Some p)
  obtain uid nick where p: "p = (uid, nick)" by (cases p)
  show ?thesis using Some p
    by (simp add: socket_disconnect_identified[OF find_socket_connected[OF assms]])
qed

lemma socket_disconnect_gone:
  assumes "registry_live s" and "k \<in> set (sockets s)"
  shows "find_socket (sock_id k) (socket_disconnect (sock_id k) s) = None \<and>
         map_of (connectedUsers (socket_disconnect (sock_id k) s)) (sock_id k) = None"
proof (cases "session k")
  case None
  then show ?thesis
    using registry_key_absent[OF assms None]
    by (simp add: socket_disconnect_anonymous[OF find_socket_connected[OF assms] None]
        find_socket_def find_None_iff)
next
  case (Some p)
  obtain uid nick where p: "p = (uid, nick)" by (cases p)
  show ?thesis using Some p
    by (simp add: socket_disconnect_identified[OF find_socket_connected[OF assms]]
        find_socket_def find_None_iff AList.delete_conv)
qed

subsection \<open>A handler that nothing interrupts\<close>

text \<open>When the steps of one handler follow each other with no other step in between, they
  amount to the handler run in one piece.\<close>

lemma pending_socket_disconnect [simp]: "pending (socket_disconnect sid s) = pending s"
  by (simp add: socket_disconnect_def on_disconnect_def io_emit_def map_delete_def
      split: option.splits)

lemma pending_socket_emit [simp]: "pending (socket_emit sid ev s) = pending s"
  by (simp add: socket_emit_def)

lemma pending_io_emit [simp]: "pending (io_emit ev s) = pending s"
  by (simp add: io_emit_def)

lemma pending_auth_failed [simp]: "pending (auth_failed sid s) = pending s"
  by (simp add: auth_failed_def)

lemma pending_identify [simp]:
  "pending (map_set sid uid (set_session sid uid nick s)) = pending s"
  by (simp add: map_set_def set_session_def)

lemma find_socket_socket_emit [simp]: "find_socket sid (socket_emit r ev s) = find_socket sid s"
  by (simp add: find_socket_def socket_emit_def)

lemma find_socket_identify:
  "find_socket sid s \<noteq> None \<Longrightarrow>
   find_socket sid (map_set sid uid (set_session sid uid nick s)) \<noteq> None"
  by (auto simp: find_socket_def map_set_def set_session_def find_None_iff)

lemma socket_emit_late_connected:
  "find_socket sid s \<noteq> None \<Longrightarrow> socket_emit_late sid ev s = socket_emit sid ev s"
  by (auto simp: socket_emit_late_def)

lemma auth_failed_late_connected:
  "find_socket sid s \<noteq> None \<Longrightarrow> auth_failed_late sid s = auth_failed sid s"
  by (auto simp: auth_failed_late_def auth_failed_def socket_emit_late_def)

lemma step_Settle_suspend:
  assumes "owner c = sid" and "length (pending s) = n"
  shows "step e sid (Settle n) (suspend c s) = resume e c s"
  using assms by (simp add: step_def settle_def suspend_def nth_append)

lemma step_Settle_idle:
  "length (pending t) \<le> n \<Longrightarrow> step e sid (Settle n) t = t"
  by (simp add: step_def)

lemma send_message_uninterrupted:
  assumes "find_socket sid s = Some k"
  shows "step e sid (Settle (length (pending s))) (step e sid (SendMessage messageData) s) =
         on_send_message e k messageData s"
proof -
  let ?n = "length (pending s)"
  have sid: "sock_id k = sid" using find_socket_SomeD[OF assms] by simp
  have conn: "find_socket sid s \<noteq> None" using assms by simp
  have late: "socket_emit_late sid (Error SendFailed) s = socket_emit sid (Error SendFailed) s"
    using conn by (rule socket_emit_late_connected)
  have b: "step e sid (SendMessage messageData) s = send_message_begin e k messageData s"
    using assms by (simp add: step_def)
  show ?thesis
  proof (cases "session k")
    case None
    then show ?thesis
      unfolding b by (simp add: send_message_begin_def on_send_message_def step_Settle_idle)
  next
    case (Some p)
    obtain uid nick where p: "session k = Some (uid, nick)" using Some by (cases p) simp
    show ?thesis
    proof (cases messageData)
      case None
      then show ?thesis
        unfolding b using p
        by (simp add: send_message_begin_def on_send_message_def step_Settle_idle)
    next
      case (Some body)
      have "step e sid (Settle ?n) (send_message_begin e k messageData s) =
            resume e (AwaitMessageSave sid (new_Message e uid nick body)) s"
        using p Some by (simp add: send_message_begin_def sid step_Settle_suspend)
      also have "\<dots> = on_send_message e k messageData s"
        using p Some by (simp add: on_send_message_def sid late split: option.splits)
      finally show ?thesis unfolding b .
    qed
  qed
qed

lemma authenticate_uninterrupted:
  assumes "find_socket sid s = Some k"
  shows "step e sid (Settle (length (pending s)))
           (step e sid (Settle (length (pending s)))
              (step e sid (Settle (length (pending s)))
                 (step e sid (Authenticate token) s))) =
         on_authenticate e k token s"
proof -
  let ?n = "length (pending s)"
  have sid: "sock_id k = sid" using find_socket_SomeD[OF assms] by simp
  have conn: "find_socket sid s \<noteq> None" using assms by simp
  have b: "step e sid (Authenticate token) s = authenticate_begin e k token s"
    using assms by (simp add: step_def)
  show ?thesis
  proof (cases "jwt_verify e token")
    case None
    then show ?thesis
      unfolding b by (simp add: authenticate_begin_def on_authenticate_def sid step_Settle_idle)
  next
    case (Some uid)
    note jwt = this
    have s1: "step e sid (Settle ?n) (authenticate_begin e k token s) =
              resume e (AwaitFindById sid uid) s"
      by (simp add: authenticate_begin_def jwt sid step_Settle_suspend)
    show ?thesis
    proof (cases "user_findById e uid s")
      case None
      have r: "resume e (AwaitFindById sid uid) s = auth_failed sid s"
        using None auth_failed_late_connected[OF conn] by simp
      have o: "on_authenticate e k token s = auth_failed sid s"
        using None jwt by (simp add: on_authenticate_def sid)
      show ?thesis unfolding b s1 r o by (simp add: step_Settle_idle)
    next
      case (Some found)
      note found = this
      show ?thesis
      proof (cases found)
        case None
        have r: "resume e (AwaitFindById sid uid) s =
                 socket_disconnect sid (socket_emit sid (AuthError UserNotFound) s)"
          using None found socket_emit_late_connected[OF conn] by simp
        have o: "on_authenticate e k token s =
                 socket_disconnect sid (socket_emit sid (AuthError UserNotFound) s)"
          using None found jwt by (simp add: on_authenticate_def sid)
        show ?thesis unfolding b s1 r o by (simp add: step_Settle_idle)
      next
        case (Some u)
        let ?s1 = "map_set sid uid (set_session sid uid (u_nickname u) s)"
        let ?u = "u\<lparr>u_lastSeen := now e\<rparr>"
        have c1: "find_socket sid ?s1 \<noteq> None" using conn by (rule find_socket_identify)
        have r1: "resume e (AwaitFindById sid uid) s = suspend (AwaitUserSave sid uid ?u) ?s1"
          using found Some by simp
        have s2: "step e sid (Settle ?n) (suspend (AwaitUserSave sid uid ?u) ?s1) =
                  resume e (AwaitUserSave sid uid ?u) ?s1"
          by (simp add: step_Settle_suspend)
        show ?thesis
        proof (cases "user_save e uid ?u ?s1")
          case None
          have r: "resume e (AwaitUserSave sid uid ?u) ?s1 = auth_failed sid ?s1"
            using None auth_failed_late_connected[OF c1] by simp
          have o: "on_authenticate e k token s = auth_failed sid ?s1"
            using None found Some jwt by (simp add: on_authenticate_def sid Let_def)
          show ?thesis unfolding b s1 r1 s2 r o by (simp add: step_Settle_idle)
        next
          case (Some s2)
          note saved = this
          have p2: "length (pending s2) = ?n"
            using saved by (auto simp: user_save_def split: if_splits)
          have c2: "find_socket sid s2 \<noteq> None"
            using saved c1 by (auto simp: user_save_def find_socket_def split: if_splits)
          have r2: "resume e (AwaitUserSave sid uid ?u) ?s1 =
                    suspend (AwaitMessages sid (u_nickname u)) s2"
            using saved by simp
          have s3: "step e sid (Settle ?n) (suspend (AwaitMessages sid (u_nickname u)) s2) =
                    resume e (AwaitMessages sid (u_nickname u)) s2"
            using p2 by (simp add: step_Settle_suspend)
          have late: "\<And>ev t. find_socket sid t \<noteq> None \<Longrightarrow>
                        socket_emit_late sid ev t = socket_emit sid ev t"
            by (rule socket_emit_late_connected)
          have r3: "resume e (AwaitMessages sid (u_nickname u)) s2 = on_authenticate e k token s"
          proof (cases "message_find_recent e s2")
            case None
            then show ?thesis
              using found \<open>found = Some u\<close> jwt saved auth_failed_late_connected[OF c2]
              by (simp add: on_authenticate_def sid Let_def)
          next
            case (Some msgs)
            have "find_socket sid (socket_emit sid (MessageHistory (rev msgs)) s2) \<noteq> None"
              using c2 by simp
            then show ?thesis
              using Some found \<open>found = Some u\<close> jwt saved late[OF c2] late
              by (simp add: on_authenticate_def sid Let_def)
          qed
          show ?thesis unfolding b s1 r1 s2 r2 s3 r3 ..
        qed
      qed
    qed
  qed
qed

text \<open>When other steps do come in between, the save of a message settles in whatever state
  they have left: a failed save sends the \<^verbatim>\<open>error\<close> to the sender if it is still connected,
  and a successful save is followed by the broadcast to the sockets connected then.\<close>

lemma message_save_settled:
  "trace (resume e (AwaitMessageSave sid m) s) =
     trace s @
     (case message_save e m s of
        None \<Rightarrow> (if find_socket sid s = None then [] else [Deliver sid (Error SendFailed)])
      | Some s1 \<Rightarrow> MessageSaved m # map (\<lambda>r. Deliver (sock_id r) (NewMessage m)) (sockets s))"
  by (simp add: message_save_def socket_emit_late_def socket_emit_def io_emit_def)

subsection \<open>Every step keeps the socket ids distinct\<close>

lemma ids_socket_emit_late [simp]: "sockets (socket_emit_late sid ev s) = sockets s"
  by (simp add: socket_emit_late_def socket_emit_def)

lemma ids_set_session [simp]:
  "map sock_id (sockets (map_set sid uid (set_session sid uid nick s))) = map sock_id (sockets s)"
  by (simp add: map_set_def set_session_def comp_def if_distrib cong: if_cong)

lemma distinct_ids_socket_disconnect:
  "distinct (map sock_id (sockets s)) \<Longrightarrow>
   distinct (map sock_id (sockets (socket_disconnect sid s)))"
  by (simp add: socket_disconnect_def on_disconnect_def io_emit_def map_delete_def
      distinct_map_filter split: option.splits)

lemma distinct_ids_auth_failed:
  "distinct (map sock_id (sockets s)) \<Longrightarrow>
   distinct (map sock_id (sockets (auth_failed sid s)))"
  by (simp add: auth_failed_def socket_emit_def distinct_ids_socket_disconnect)

lemma distinct_ids_auth_failed_late:
  "distinct (map sock_id (sockets s)) \<Longrightarrow>
   distinct (map sock_id (sockets (auth_failed_late sid s)))"
  by (simp add: auth_failed_late_def distinct_ids_socket_disconnect)

lemma distinct_ids_resume:
  assumes "distinct (map sock_id (sockets s))"
  shows "distinct (map sock_id (sockets (resume e c s)))"
proof (cases c)
  case (AwaitFindById sid uid)
  then show ?thesis using assms
    by (auto simp: suspend_def distinct_ids_auth_failed_late distinct_ids_socket_disconnect
        split: option.splits)
next
  case (AwaitUserSave sid uid u)
  then show ?thesis using assms
    by (auto simp: suspend_def user_save_def distinct_ids_auth_failed_late
        split: option.splits if_splits)
next
  case (AwaitMessages sid nick)
  then show ?thesis using assms
    by (auto simp: io_emit_def distinct_ids_auth_failed_late split: option.splits)
next
  case (AwaitMessageSave sid m)
  then show ?thesis using assms
    by (auto simp: io_emit_def message_save_def split: option.splits if_splits)
qed

lemma distinct_ids_step:
  assumes "distinct (map sock_id (sockets s))"
  shows "distinct (map sock_id (sockets (step e sid inp s)))"
proof (cases inp)
  case Connect
  then show ?thesis using assms
    by (auto simp: step_def on_connection_def find_socket_def find_None_iff)
next
  case (Authenticate token)
  then show ?thesis using assms
    by (auto simp: step_def authenticate_begin_def suspend_def distinct_ids_auth_failed
        split: option.splits)
next
  case (SendMessage messageData)
  then show ?thesis using assms
    by (auto simp: step_def send_message_begin_def suspend_def socket_emit_def
        split: option.splits)
next
  case Typing
  then show ?thesis using assms
    by (auto simp: step_def on_typing_def broadcast_emit_def split: option.splits)
next
  case Close
  then show ?thesis using assms by (simp add: step_def distinct_ids_socket_disconnect)
next
  case (Settle n)
  then show ?thesis using assms
    by (simp add: step_def settle_def distinct_ids_resume)
qed

text \<open>The instance satisfies the invariant. Its two stored messages are what two sends leave
  behind when the message built first, at time 3, is saved second. The state \<open>stale\<close> has a
  key in \<^verbatim>\<open>connectedUsers\<close> for socket 2, which has closed.\<close>

lemmas model_defs =
  find_socket_def socket_emit_def io_emit_def broadcast_emit_def map_set_def map_delete_def
  set_session_def user_findById_def user_save_def message_find_recent_def message_valid_def
  message_save_def on_disconnect_def socket_disconnect_def auth_failed_def on_authenticate_def
  new_Message_def on_send_message_def on_typing_def on_connection_def step_def
  socket_emit_late_def suspend_def authenticate_begin_def send_message_begin_def
  auth_failed_late_def settle_def

lemmas instance_defs =
  alice_def bob_def env0_def sock1_def sock2_def lobby_def stored_first_def stored_second_def
  backlog_def

lemma registry_live_lobby: "registry_live lobby"
  by (simp add: registry_live_def instance_defs)

lemma registry_live_backlog: "registry_live backlog"
  by (simp add: registry_live_def instance_defs)

lemma out_of_order_store_reached:
  "messages
     (step env0 1 (Settle 0)
        (step env0 1 (Settle 1)
           (step (env0\<lparr>now := 5\<rparr>) 1 (SendMessage (Some ''first''))
              (step (env0\<lparr>now := 3, fresh_id := 2\<rparr>) 1 (SendMessage (Some ''second''))
                 lobby)))) =
   messages backlog"
  by (simp add: model_defs instance_defs)

lemma stale_key_left_behind:
  "sockets stale = [sock1] \<and> connectedUsers stale = [(1, 7), (2, 7)] \<and> pending stale = [] \<and>
   trace stale = [Disconnected 2, RegistrySet 2 7, UserSaved 7, Deliver 1 (UserJoined ''alice'')]"
  by (simp add: stale_def model_defs instance_defs)

lemma registry_live_not_kept: "registry_live lobby \<and> \<not> registry_live stale"
  by (simp add: registry_live_def stale_def model_defs instance_defs)

lemma sixty_increasing: "sorted_wrt (<) (map m_timestamp sixty)"
  by (simp add: sixty_def sorted_wrt_map comp_def)

lemma length_sixty: "length sixty = 60"
  by (simp add: sixty_def)

section \<open>The claims\<close>

subsection \<open>C1\<close>




subsection \<open>C2\<close>

text \<open>C2, as the code has it. When the token verifies, its user is found, and the save of
  the user and the query of the messages succeed, the caller is sent exactly three events, in
  this order: one \<^verbatim>\<open>message_history\<close>, then one \<^verbatim>\<open>authenticated\<close> with the display name, then
  the \<^verbatim>\<open>user_joined\<close> broadcast. The history holds at most 50 messages in non-decreasing
  timestamp order. The claim has the first two in the opposite order.\<close>

theorem authenticate_history_then_authenticated:
  assumes "registry_live s" and "k \<in> set (sockets s)"
    and "jwt_verify e token = Some uid"
    and "user_findById e uid s = Some (Some u)"
    and "user_save_ok e"
    and "message_find_recent e s = Some msgs"
  shows "delivered_to (sock_id k) (drop (length (trace s)) (trace (on_authenticate e k token s))) =
           [MessageHistory (rev msgs), Authenticated (u_nickname u), UserJoined (u_nickname u)] \<and>
         length (rev msgs) \<le> 50 \<and>
         sorted (map m_timestamp (rev msgs))"
proof -
  have d: "distinct (map sock_id (sockets s))"
    using assms(1) by (simp add: registry_live_def)
  have "delivered_to (sock_id k)
          (map (\<lambda>r. Deliver (sock_id r) (UserJoined (u_nickname u))) (sockets s)) =
        [UserJoined (u_nickname u)]"
    using d assms(2) by (simp add: delivered_to_broadcast)
  then have "delivered_to (sock_id k)
               (drop (length (trace s)) (trace (on_authenticate e k token s))) =
           [MessageHistory (rev msgs), Authenticated (u_nickname u), UserJoined (u_nickname u)]"
    by (simp add: on_authenticate_success[OF assms(3-6)])
  with message_find_recent_bounds[OF assms(6)] show ?thesis by blast
qed

theorem authenticate_history_then_authenticated_witness:
  "registry_live backlog \<and> sock2 \<in> set (sockets backlog) \<and>
   jwt_verify env0 ''alice-token'' = Some 7 \<and>
   user_findById env0 7 backlog = Some (Some alice) \<and>
   user_save_ok env0 \<and>
   message_find_recent env0 backlog = Some [stored_first, stored_second] \<and>
   delivered_to 2 (trace (on_authenticate env0 sock2 ''alice-token'' backlog)) =
     [MessageHistory [stored_second, stored_first], Authenticated ''alice'', UserJoined ''alice'']"
proof -
  have h1: "registry_live backlog" by (rule registry_live_backlog)
  have h2: "sock2 \<in> set (sockets backlog)" by (simp add: instance_defs)
  have h3: "jwt_verify env0 ''alice-token'' = Some 7" by (simp add: instance_defs)
  have h4: "user_findById env0 7 backlog = Some (Some alice)"
    by (simp add: user_findById_def instance_defs)
  have h5: "user_save_ok env0" by (simp add: instance_defs)
  have h6: "message_find_recent env0 backlog = Some [stored_first, stored_second]"
    by (simp add: message_find_recent_def instance_defs)
  have t: "trace backlog = []" "sock_id sock2 = 2" "u_nickname alice = ''alice''"
    by (simp_all add: instance_defs)
  show ?thesis
    using h1 h2 h3 h4 h5 h6 authenticate_history_then_authenticated [OF h1 h2 h3 h4 h5 h6]
    by (simp add: t)
qed

text \<open>On the instance the caller's first event is the history and the second is
  \<^verbatim>\<open>authenticated\<close>.\<close>

theorem authenticate_order_counterexample:
  "delivered_to 2 (trace (on_authenticate env0 sock2 ''alice-token'' lobby)) =
     [MessageHistory [], Authenticated ''alice'', UserJoined ''alice''] \<and>
   takeWhile (\<lambda>ev. ev \<noteq> Authenticated ''alice'')
     (delivered_to 2 (trace (on_authenticate env0 sock2 ''alice-token'' lobby))) =
     [MessageHistory []]"
  by (simp add: model_defs instance_defs)

subsection \<open>C3\<close>

text \<open>C3, as the code has it. The history sent on authentication is the query's result
  reversed: the 50 messages with the greatest timestamps, ordered by timestamp, oldest first.
  It is sent to the caller alone. Where the stored timestamps increase strictly in storage
  order, it is exactly the last 50 stored messages in storage order; with more than 50 stored
  messages it has exactly 50. The claim says storage order for every store.\<close>

theorem authenticate_history_by_timestamp:
  assumes "registry_live s" and "k \<in> set (sockets s)"
    and "jwt_verify e token = Some uid"
    and "user_findById e uid s = Some (Some u)"
    and "user_save_ok e"
    and "query_ok e"
  shows "recipients (MessageHistory (rev (take 50 (sort_key (\<lambda>m. - m_timestamp m) (messages s)))))
           (drop (length (trace s)) (trace (on_authenticate e k token s))) = [sock_id k] \<and>
         (sorted_wrt (<) (map m_timestamp (messages s)) \<longrightarrow>
            rev (take 50 (sort_key (\<lambda>m. - m_timestamp m) (messages s))) =
              drop (length (messages s) - 50) (messages s)) \<and>
         (50 < length (messages s) \<longrightarrow>
            length (rev (take 50 (sort_key (\<lambda>m. - m_timestamp m) (messages s)))) = 50)"
proof -
  let ?msgs = "take 50 (sort_key (\<lambda>m. - m_timestamp m) (messages s))"
  have q: "message_find_recent e s = Some ?msgs"
    using assms(6) by (simp add: message_find_recent_def)
  have "recipients (MessageHistory (rev ?msgs))
          (drop (length (trace s)) (trace (on_authenticate e k token s))) = [sock_id k]"
    by (simp add: on_authenticate_success[OF assms(3-5) q] recipients_def comp_def)
  moreover have "sorted_wrt (<) (map m_timestamp (messages s)) \<longrightarrow>
            rev ?msgs = drop (length (messages s) - 50) (messages s)"
    using message_find_recent_strict[OF q] by blast
  moreover have "50 < length (messages s) \<longrightarrow> length (rev ?msgs) = 50"
    by simp
  ultimately show ?thesis by blast
qed

text \<open>Sixty stored messages with increasing timestamps: the caller gets the last fifty.\<close>

theorem authenticate_history_by_timestamp_witness:
  "registry_live (lobby\<lparr>messages := sixty\<rparr>) \<and> sock2 \<in> set (sockets (lobby\<lparr>messages := sixty\<rparr>)) \<and>
   jwt_verify env0 ''alice-token'' = Some 7 \<and>
   user_findById env0 7 (lobby\<lparr>messages := sixty\<rparr>) = Some (Some alice) \<and>
   user_save_ok env0 \<and> query_ok env0 \<and>
   sorted_wrt (<) (map m_timestamp (messages (lobby\<lparr>messages := sixty\<rparr>))) \<and>
   50 < length (messages (lobby\<lparr>messages := sixty\<rparr>)) \<and>
   recipients (MessageHistory (drop 10 sixty))
     (trace (on_authenticate env0 sock2 ''alice-token'' (lobby\<lparr>messages := sixty\<rparr>))) = [2] \<and>
   length (drop 10 sixty) = 50"
proof -
  let ?s = "lobby\<lparr>messages := sixty\<rparr>"
  have h1: "registry_live ?s" using registry_live_lobby by simp
  have h2: "sock2 \<in> set (sockets ?s)" by (simp add: instance_defs)
  have h3: "jwt_verify env0 ''alice-token'' = Some 7" by (simp add: instance_defs)
  have h4: "user_findById env0 7 ?s = Some (Some alice)"
    by (simp add: user_findById_def instance_defs)
  have h5: "user_save_ok env0" by (simp add: instance_defs)
  have h6: "query_ok env0" by (simp add: instance_defs)
  have h7: "sorted_wrt (<) (map m_timestamp (messages ?s))" using sixty_increasing by simp
  have h8: "50 < length (messages ?s)" by (simp add: length_sixty)
  have t: "trace ?s = []" "sock_id sock2 = 2" "length (messages ?s) - 50 = 10" "messages ?s = sixty"
    by (simp_all add: instance_defs length_sixty)
  have "rev (take 50 (sort_key (\<lambda>m. - m_timestamp m) (messages ?s))) = drop 10 sixty"
    using authenticate_history_by_timestamp [OF h1 h2 h3 h4 h5 h6] h7 t(3,4) by simp
  then have "recipients (MessageHistory (drop 10 sixty))
               (trace (on_authenticate env0 sock2 ''alice-token'' ?s)) = [2]"
    using authenticate_history_by_timestamp [OF h1 h2 h3 h4 h5 h6] t(1,2) by simp
  then show ?thesis
    using h1 h2 h3 h4 h5 h6 h7 h8 by (simp add: length_sixty)
qed

text \<open>Two stored messages, the one stored first with the later timestamp: the history is the
  store reversed, not the store.\<close>

theorem history_storage_order_counterexample:
  "messages backlog = [stored_first, stored_second] \<and>
   recipients (MessageHistory [stored_second, stored_first])
     (trace (on_authenticate env0 sock2 ''alice-token'' backlog)) = [2] \<and>
   recipients (MessageHistory [stored_first, stored_second])
     (trace (on_authenticate env0 sock2 ''alice-token'' backlog)) = []"
  by (simp add: model_defs instance_defs)

subsection \<open>C4\<close>

text \<open>C4, as the code has it. The handler does not trim: the text is stored and broadcast as
  received. From an authenticated socket, a \<^verbatim>\<open>send_message\<close> with no text or with the empty
  text leaves one \<^verbatim>\<open>error\<close> for the sender and nothing else, so nothing is stored. Any other
  text, white space included, is stored as it came and then broadcast as it came to every
  connected socket, when the store takes the write.\<close>

theorem send_message_text_as_received:
  assumes "session k = Some (uid, nick)"
  shows "(messageData = None \<or> messageData = Some [] \<longrightarrow>
            on_send_message e k messageData s =
              s\<lparr>trace := trace s @ [Deliver (sock_id k) (Error SendFailed)]\<rparr>) \<and>
         (\<forall>body. messageData = Some body \<and> body \<noteq> [] \<and> nick \<noteq> [] \<and> message_save_ok e \<longrightarrow>
            on_send_message e k messageData s =
              s\<lparr>messages := messages s @ [new_Message e uid nick body],
                trace := trace s @ MessageSaved (new_Message e uid nick body) #
                         map (\<lambda>r. Deliver (sock_id r) (NewMessage (new_Message e uid nick body)))
                             (sockets s)\<rparr> \<and>
            m_text (new_Message e uid nick body) = body)"
  using assms
  by (auto simp: on_send_message_def message_save_def message_valid_def new_Message_def
      socket_emit_def io_emit_def)

theorem send_message_text_as_received_witness:
  "session sock1 = Some (7, ''alice'') \<and>
   on_send_message env0 sock1 (Some []) lobby = lobby\<lparr>trace := [Deliver 1 (Error SendFailed)]\<rparr> \<and>
   on_send_message env0 sock1 (Some ''hello '') lobby =
     lobby\<lparr>messages := [\<lparr>m_id = 1, m_userId = 7, m_nickname = ''alice'', m_text = ''hello '',
                           m_timestamp = 100\<rparr>],
           trace := [MessageSaved \<lparr>m_id = 1, m_userId = 7, m_nickname = ''alice'',
                                  m_text = ''hello '', m_timestamp = 100\<rparr>,
                     Deliver 1 (NewMessage \<lparr>m_id = 1, m_userId = 7, m_nickname = ''alice'',
                                           m_text = ''hello '', m_timestamp = 100\<rparr>),
                     Deliver 2 (NewMessage \<lparr>m_id = 1, m_userId = 7, m_nickname = ''alice'',
                                           m_text = ''hello '', m_timestamp = 100\<rparr>)]\<rparr>"
proof -
  have h: "session sock1 = Some (7, ''alice'')" by (simp add: instance_defs)
  have t: "trace lobby = []" "messages lobby = []" "sock_id sock1 = 1" "message_save_ok env0"
    "new_Message env0 7 ''alice'' ''hello '' =
       \<lparr>m_id = 1, m_userId = 7, m_nickname = ''alice'', m_text = ''hello '', m_timestamp = 100\<rparr>"
    "map (\<lambda>r. Deliver (sock_id r) ev) (sockets lobby) = [Deliver 1 ev, Deliver 2 ev]" for ev
    by (simp_all add: instance_defs new_Message_def)
  show ?thesis
    using h send_message_text_as_received [OF h, of "Some []" env0 lobby]
      send_message_text_as_received [OF h, of "Some ''hello ''" env0 lobby]
    by (simp add: t)
qed

text \<open>A text of two spaces is empty after trimming, and it is stored and broadcast.\<close>

theorem whitespace_text_counterexample:
  "spec_trim ''  '' = [] \<and>
   on_send_message env0 sock1 (Some ''  '') lobby =
     lobby\<lparr>messages := [\<lparr>m_id = 1, m_userId = 7, m_nickname = ''alice'', m_text = ''  '',
                           m_timestamp = 100\<rparr>],
           trace := [MessageSaved \<lparr>m_id = 1, m_userId = 7, m_nickname = ''alice'',
                                  m_text = ''  '', m_timestamp = 100\<rparr>,
                     Deliver 1 (NewMessage \<lparr>m_id = 1, m_userId = 7, m_nickname = ''alice'',
                                           m_text = ''  '', m_timestamp = 100\<rparr>),
                     Deliver 2 (NewMessage \<lparr>m_id = 1, m_userId = 7, m_nickname = ''alice'',
                                           m_text = ''  '', m_timestamp = 100\<rparr>)]\<rparr>"
  by (simp add: spec_trim_def is_space_def model_defs instance_defs)

subsection \<open>C5\<close>

text \<open>C5, as the code has it. The authenticate handler has no guard against a second
  \<^verbatim>\<open>authenticate\<close>. On a socket that already has an identity, a token that verifies is
  processed as on a new socket: the socket takes the new identity, \<^verbatim>\<open>connectedUsers.set\<close>
  overwrites the entry, the history and \<^verbatim>\<open>authenticated\<close> are sent to the caller again, and
  \<^verbatim>\<open>user_joined\<close> is broadcast again.\<close>

theorem authenticate_again_reprocessed:
  assumes "k \<in> set (sockets s)" and "session k = Some (uid0, nick0)"
    and "jwt_verify e token = Some uid"
    and "user_findById e uid s = Some (Some u)"
    and "user_save_ok e"
    and "message_find_recent e s = Some msgs"
  shows "sockets (on_authenticate e k token s) =
           map (\<lambda>x. if sock_id x = sock_id k
                     then x\<lparr>session := Some (uid, u_nickname u)\<rparr> else x) (sockets s) \<and>
         k\<lparr>session := Some (uid, u_nickname u)\<rparr> \<in> set (sockets (on_authenticate e k token s)) \<and>
         connectedUsers (on_authenticate e k token s) =
           AList.update (sock_id k) uid (connectedUsers s) \<and>
         map_of (connectedUsers (on_authenticate e k token s)) (sock_id k) = Some uid \<and>
         trace (on_authenticate e k token s) =
           trace s @
           [RegistrySet (sock_id k) uid, UserSaved uid,
            Deliver (sock_id k) (MessageHistory (rev msgs)),
            Deliver (sock_id k) (Authenticated (u_nickname u))] @
           map (\<lambda>r. Deliver (sock_id r) (UserJoined (u_nickname u))) (sockets s)"
proof -
  have "(\<lambda>x. if sock_id x = sock_id k then x\<lparr>session := Some (uid, u_nickname u)\<rparr> else x) k
          \<in> (\<lambda>x. if sock_id x = sock_id k then x\<lparr>session := Some (uid, u_nickname u)\<rparr> else x)
              ` set (sockets s)"
    using assms(1) by (rule imageI)
  then show ?thesis
    by (simp add: on_authenticate_success[OF assms(3-6)] AList.update_conv')
qed

theorem authenticate_again_reprocessed_witness:
  "sock1 \<in> set (sockets lobby) \<and> session sock1 = Some (7, ''alice'') \<and>
   jwt_verify env0 ''bob-token'' = Some 9 \<and>
   user_findById env0 9 lobby = Some (Some bob) \<and>
   user_save_ok env0 \<and>
   message_find_recent env0 lobby = Some [] \<and>
   sockets lobby = [\<lparr>sock_id = 1, session = Some (7, ''alice'')\<rparr>, sock2] \<and>
   sockets (on_authenticate env0 sock1 ''bob-token'' lobby) =
     [\<lparr>sock_id = 1, session = Some (9, ''bob'')\<rparr>, sock2] \<and>
   connectedUsers lobby = [(1, 7)] \<and>
   connectedUsers (on_authenticate env0 sock1 ''bob-token'' lobby) = [(1, 9)] \<and>
   trace (on_authenticate env0 sock1 ''bob-token'' lobby) =
     [RegistrySet 1 9, UserSaved 9, Deliver 1 (MessageHistory []),
      Deliver 1 (Authenticated ''bob''), Deliver 1 (UserJoined ''bob''),
      Deliver 2 (UserJoined ''bob'')]"
proof -
  have h1: "sock1 \<in> set (sockets lobby)" by (simp add: instance_defs)
  have h2: "session sock1 = Some (7, ''alice'')" by (simp add: instance_defs)
  have h3: "jwt_verify env0 ''bob-token'' = Some 9" by (simp add: instance_defs)
  have h4: "user_findById env0 9 lobby = Some (Some bob)"
    by (simp add: user_findById_def instance_defs)
  have h5: "user_save_ok env0" by (simp add: instance_defs)
  have h6: "message_find_recent env0 lobby = Some []"
    by (simp add: message_find_recent_def instance_defs)
  have t: "trace lobby = []" "sock_id sock1 = 1" "u_nickname bob = ''bob''"
    "connectedUsers lobby = [(1, 7)]" "map sock_id (sockets lobby) = [1, 2]"
    "sockets lobby = [\<lparr>sock_id = 1, session = Some (7, ''alice'')\<rparr>, sock2]"
    "sock_id sock2 = 2"
    by (simp_all add: instance_defs)
  have m: "map (\<lambda>r. Deliver (sock_id r) (UserJoined ''bob'')) (sockets lobby) =
           [Deliver 1 (UserJoined ''bob''), Deliver 2 (UserJoined ''bob'')]"
    by (simp add: instance_defs)
  have "sockets (on_authenticate env0 sock1 ''bob-token'' lobby) =
          [\<lparr>sock_id = 1, session = Some (9, ''bob'')\<rparr>, sock2]"
    using authenticate_again_reprocessed [OF h1 h2 h3 h4 h5 h6] by (simp add: t)
  then show ?thesis
    using h1 h2 h3 h4 h5 h6 authenticate_again_reprocessed [OF h1 h2 h3 h4 h5 h6]
    by (simp add: t m)
qed

text \<open>Socket 1 has authenticated as alice. A second \<^verbatim>\<open>authenticate\<close> on it, with her own
  token, runs the whole success path again: the event and the three database calls that
  settle after it leave the write to \<^verbatim>\<open>connectedUsers\<close>, the history, \<^verbatim>\<open>authenticated\<close> and
  the broadcast of \<^verbatim>\<open>user_joined\<close> in the trace.\<close>

theorem authenticate_twice_counterexample:
  "find_socket 1 lobby = Some sock1 \<and> session sock1 = Some (7, ''alice'') \<and>
   map_of (connectedUsers lobby) 1 = Some 7 \<and>
   trace (step env0 1 (Settle 0)
            (step env0 1 (Settle 0)
               (step env0 1 (Settle 0)
                  (step env0 1 (Authenticate ''alice-token'') lobby)))) =
     [RegistrySet 1 7, UserSaved 7, Deliver 1 (MessageHistory []),
      Deliver 1 (Authenticated ''alice''), Deliver 1 (UserJoined ''alice''),
      Deliver 2 (UserJoined ''alice'')] \<and>
   trace (on_authenticate env0 sock1 ''alice-token'' lobby) =
     [RegistrySet 1 7, UserSaved 7, Deliver 1 (MessageHistory []),
      Deliver 1 (Authenticated ''alice''), Deliver 1 (UserJoined ''alice''),
      Deliver 2 (UserJoined ''alice'')]"
  by (simp add: model_defs instance_defs)

subsection \<open>C6\<close>

text \<open>C6, as the code has it. After a successful \<^verbatim>\<open>authenticate\<close>, \<^verbatim>\<open>user_joined\<close> with the
  display name is sent with \<^verbatim>\<open>io.emit\<close>: it goes to every connected socket, and the caller is
  one of them.\<close>

theorem user_joined_reaches_caller:
  assumes "k \<in> set (sockets s)"
    and "jwt_verify e token = Some uid"
    and "user_findById e uid s = Some (Some u)"
    and "user_save_ok e"
    and "message_find_recent e s = Some msgs"
  shows "recipients (UserJoined (u_nickname u))
           (drop (length (trace s)) (trace (on_authenticate e k token s))) =
           map sock_id (sockets s) \<and>
         sock_id k \<in> set (recipients (UserJoined (u_nickname u))
                            (drop (length (trace s)) (trace (on_authenticate e k token s))))"
  using assms(1) by (simp add: on_authenticate_success[OF assms(2-5)])

theorem user_joined_reaches_caller_witness:
  "sock2 \<in> set (sockets lobby) \<and>
   jwt_verify env0 ''bob-token'' = Some 9 \<and>
   user_findById env0 9 lobby = Some (Some bob) \<and>
   user_save_ok env0 \<and>
   message_find_recent env0 lobby = Some [] \<and>
   recipients (UserJoined ''bob'') (trace (on_authenticate env0 sock2 ''bob-token'' lobby)) = [1, 2]"
proof -
  have h1: "sock2 \<in> set (sockets lobby)" by (simp add: instance_defs)
  have h2: "jwt_verify env0 ''bob-token'' = Some 9" by (simp add: instance_defs)
  have h3: "user_findById env0 9 lobby = Some (Some bob)"
    by (simp add: user_findById_def instance_defs)
  have h4: "user_save_ok env0" by (simp add: instance_defs)
  have h5: "message_find_recent env0 lobby = Some []"
    by (simp add: message_find_recent_def instance_defs)
  have t: "trace lobby = []" "u_nickname bob = ''bob''" "map sock_id (sockets lobby) = [1, 2]"
    by (simp_all add: instance_defs)
  show ?thesis
    using h1 h2 h3 h4 h5 user_joined_reaches_caller [OF h1 h2 h3 h4 h5]
    by (simp add: t)
qed

text \<open>Socket 2 authenticates as alice and is itself sent \<^verbatim>\<open>user_joined\<close>.\<close>

theorem user_joined_caller_counterexample:
  "sock_id sock2 = 2 \<and>
   Deliver 2 (UserJoined ''alice'')
     \<in> set (trace (on_authenticate env0 sock2 ''alice-token'' lobby))"
  by (simp add: model_defs instance_defs)

subsection \<open>C7\<close>

text \<open>C7, as the code has it. On a socket with no identity, \<^verbatim>\<open>send_message\<close> leaves one
  \<^verbatim>\<open>error\<close> for the sender and changes nothing else: nothing is stored, nothing is
  broadcast. \<^verbatim>\<open>typing\<close> on such a socket is dropped in silence: the state does not change at
  all, and no \<^verbatim>\<open>error\<close> is sent.\<close>

theorem unauthenticated_events:
  assumes "session k = None"
  shows "on_send_message e k messageData s =
           s\<lparr>trace := trace s @ [Deliver (sock_id k) (Error NotAuthorized)]\<rparr> \<and>
         on_typing k s = s"
  using assms by (simp add: on_send_message_def on_typing_def socket_emit_def)

theorem unauthenticated_events_witness:
  "session sock2 = None \<and>
   on_send_message env0 sock2 (Some ''hi'') lobby =
     lobby\<lparr>trace := [Deliver 2 (Error NotAuthorized)]\<rparr> \<and>
   on_typing sock2 lobby = lobby"
proof -
  have h: "session sock2 = None" by (simp add: instance_defs)
  have t: "trace lobby = []" "sock_id sock2 = 2" by (simp_all add: instance_defs)
  show ?thesis
    using h unauthenticated_events [OF h, of env0 "Some ''hi''" lobby] by (simp add: t)
qed

text \<open>\<^verbatim>\<open>typing\<close> on socket 2, which has not authenticated: nothing is sent to it.\<close>

theorem typing_unauthenticated_counterexample:
  "find_socket 2 lobby = Some sock2 \<and> session sock2 = None \<and>
   delivered_to 2 (trace (step env0 2 Typing lobby)) = [] \<and>
   step env0 2 Typing lobby = lobby"
  by (simp add: model_defs instance_defs)

subsection \<open>C8\<close>

text \<open>C8, as the code has it. When a connected socket with an identity closes, the handler
  first sends one \<^verbatim>\<open>user_left\<close> with the socket's display name to every socket that is still
  connected, and then deletes the socket's key from \<^verbatim>\<open>connectedUsers\<close>. After the handler the
  key is absent and the socket is gone. When the socket has no identity the handler sends
  nothing. The claim has the removal before the broadcast.\<close>

theorem disconnect_broadcast_then_remove:
  assumes "registry_live s" and "k \<in> set (sockets s)"
  shows "(\<forall>uid nick. session k = Some (uid, nick) \<longrightarrow>
            trace (socket_disconnect (sock_id k) s) =
              trace s @ Disconnected (sock_id k) #
              map (\<lambda>r. Deliver (sock_id r) (UserLeft nick))
                  (filter (\<lambda>x. sock_id x \<noteq> sock_id k) (sockets s)) @
              [RegistryDelete (sock_id k)]) \<and>
         (session k = None \<longrightarrow>
            trace (socket_disconnect (sock_id k) s) = trace s @ [Disconnected (sock_id k)]) \<and>
         map_of (connectedUsers (socket_disconnect (sock_id k) s)) (sock_id k) = None \<and>
         find_socket (sock_id k) (socket_disconnect (sock_id k) s) = None"
  using socket_disconnect_gone[OF assms]
  by (auto simp: socket_disconnect_trace[OF assms])

theorem disconnect_broadcast_then_remove_witness:
  "registry_live lobby \<and> sock1 \<in> set (sockets lobby) \<and> sock2 \<in> set (sockets lobby) \<and>
   session sock1 = Some (7, ''alice'') \<and> session sock2 = None \<and>
   trace (socket_disconnect 1 lobby) =
     [Disconnected 1, Deliver 2 (UserLeft ''alice''), RegistryDelete 1] \<and>
   map_of (connectedUsers (socket_disconnect 1 lobby)) 1 = None \<and>
   trace (socket_disconnect 2 lobby) = [Disconnected 2]"
proof -
  have h1: "registry_live lobby" by (rule registry_live_lobby)
  have h2: "sock1 \<in> set (sockets lobby)" by (simp add: instance_defs)
  have h3: "sock2 \<in> set (sockets lobby)" by (simp add: instance_defs)
  have t: "session sock1 = Some (7, ''alice'')" "session sock2 = None" "trace lobby = []"
    "sock_id sock1 = 1" "sock_id sock2 = 2"
    by (simp_all add: instance_defs)
  have m: "map (\<lambda>r. Deliver (sock_id r) (UserLeft ''alice''))
             (filter (\<lambda>x. sock_id x \<noteq> Suc 0) (sockets lobby)) = [Deliver 2 (UserLeft ''alice'')]"
    by (simp add: instance_defs)
  show ?thesis
    using h1 h2 h3 disconnect_broadcast_then_remove [OF h1 h2]
      disconnect_broadcast_then_remove [OF h1 h3]
    by (simp add: t m)
qed

text \<open>Socket 1 closes: everything before the removal of its key is the closing itself and
  the delivery of \<^verbatim>\<open>user_left\<close> to socket 2.\<close>

theorem disconnect_order_counterexample:
  "trace (step env0 1 Close lobby) =
     [Disconnected 1, Deliver 2 (UserLeft ''alice''), RegistryDelete 1] \<and>
   takeWhile (\<lambda>x. x \<noteq> RegistryDelete 1) (trace (step env0 1 Close lobby)) =
     [Disconnected 1, Deliver 2 (UserLeft ''alice'')]"
  by (simp add: model_defs instance_defs)

subsection \<open>C9\<close>

text \<open>C9. When the token does not verify, or it verifies and no user is found for its id (or
  the lookup fails), the caller is sent exactly one event, an \<^verbatim>\<open>auth_error\<close>; the socket is
  closed; no \<^verbatim>\<open>connectedUsers.set\<close> for the socket takes place, and after the handler
  \<^verbatim>\<open>connectedUsers\<close> has no entry for it.\<close>

theorem authenticate_rejected_closes:
  assumes "registry_live s" and "k \<in> set (sockets s)"
    and "\<forall>uid u. jwt_verify e token = Some uid \<longrightarrow> user_findById e uid s \<noteq> Some (Some u)"
  shows "delivered_to (sock_id k) (drop (length (trace s)) (trace (on_authenticate e k token s))) =
           [AuthError (if jwt_verify e token \<noteq> None \<and> find_ok e then UserNotFound
                       else InvalidToken)] \<and>
         find_socket (sock_id k) (on_authenticate e k token s) = None \<and>
         map_of (connectedUsers (on_authenticate e k token s)) (sock_id k) = None \<and>
         (\<forall>uid. RegistrySet (sock_id k) uid
                   \<notin> set (drop (length (trace s)) (trace (on_authenticate e k token s))))"
proof -
  let ?ev = "AuthError (if jwt_verify e token \<noteq> None \<and> find_ok e then UserNotFound
                        else InvalidToken)"
  let ?s0 = "socket_emit (sock_id k) ?ev s"
  have r: "on_authenticate e k token s = socket_disconnect (sock_id k) ?s0"
    using assms(3) by (rule on_authenticate_rejected)
  have l0: "registry_live ?s0" using assms(1) by (simp add: socket_emit_def)
  have k0: "k \<in> set (sockets ?s0)" using assms(2) by (simp add: socket_emit_def)
  have t: "trace (socket_disconnect (sock_id k) ?s0) =
             trace s @ Deliver (sock_id k) ?ev # Disconnected (sock_id k) #
             (case session k of
                None \<Rightarrow> []
              | Some (uid, nick) \<Rightarrow>
                  map (\<lambda>r. Deliver (sock_id r) (UserLeft nick))
                      (filter (\<lambda>x. sock_id x \<noteq> sock_id k) (sockets s)) @
                  [RegistryDelete (sock_id k)])"
    unfolding socket_disconnect_trace[OF l0 k0]
    by (simp add: socket_emit_def split: option.splits)
  have "delivered_to (sock_id k)
          (drop (length (trace s)) (trace (on_authenticate e k token s))) = [?ev]"
    unfolding r t by (auto simp: delivered_to_others split: option.splits)
  moreover have "\<forall>uid. RegistrySet (sock_id k) uid
                   \<notin> set (drop (length (trace s)) (trace (on_authenticate e k token s)))"
    unfolding r t by (auto split: option.splits)
  ultimately show ?thesis
    using socket_disconnect_gone[OF l0 k0] unfolding r by blast
qed

text \<open>A refused token and a token of a user that does not exist, both on socket 2.\<close>

theorem authenticate_rejected_closes_witness:
  "registry_live lobby \<and> sock2 \<in> set (sockets lobby) \<and>
   jwt_verify env0 ''forged'' = None \<and>
   jwt_verify env0 ''ghost-token'' = Some 8 \<and> user_findById env0 8 lobby = Some None \<and>
   delivered_to 2 (trace (on_authenticate env0 sock2 ''forged'' lobby)) =
     [AuthError InvalidToken] \<and>
   find_socket 2 (on_authenticate env0 sock2 ''forged'' lobby) = None \<and>
   map_of (connectedUsers (on_authenticate env0 sock2 ''forged'' lobby)) 2 = None \<and>
   delivered_to 2 (trace (on_authenticate env0 sock2 ''ghost-token'' lobby)) =
     [AuthError UserNotFound] \<and>
   find_socket 2 (on_authenticate env0 sock2 ''ghost-token'' lobby) = None \<and>
   map_of (connectedUsers (on_authenticate env0 sock2 ''ghost-token'' lobby)) 2 = None"
proof -
  have h1: "registry_live lobby" by (rule registry_live_lobby)
  have h2: "sock2 \<in> set (sockets lobby)" by (simp add: instance_defs)
  have j1: "jwt_verify env0 ''forged'' = None" by (simp add: instance_defs)
  have j2: "jwt_verify env0 ''ghost-token'' = Some 8" by (simp add: instance_defs)
  have f2: "user_findById env0 8 lobby = Some None"
    by (simp add: user_findById_def instance_defs)
  have h3: "\<forall>uid u. jwt_verify env0 ''forged'' = Some uid \<longrightarrow>
              user_findById env0 uid lobby \<noteq> Some (Some u)"
    by (simp add: j1)
  have h4: "\<forall>uid u. jwt_verify env0 ''ghost-token'' = Some uid \<longrightarrow>
              user_findById env0 uid lobby \<noteq> Some (Some u)"
    by (simp add: j2 f2)
  have t: "trace lobby = []" "sock_id sock2 = 2" "find_ok env0"
    by (simp_all add: instance_defs)
  show ?thesis
    using h1 h2 j1 j2 f2 authenticate_rejected_closes [OF h1 h2 h3]
      authenticate_rejected_closes [OF h1 h2 h4]
    by (simp add: t)
qed

subsection \<open>C10\<close>

text \<open>C10. The three broadcasts are made with \<^verbatim>\<open>io.emit\<close>, so their recipients are the
  connected sockets, whether or not a socket has an identity or a key in \<^verbatim>\<open>connectedUsers\<close>:
  \<^verbatim>\<open>new_message\<close> and \<^verbatim>\<open>user_joined\<close> go to every connected socket, and \<^verbatim>\<open>user_left\<close> goes to
  every socket that is connected once the closing one has left.\<close>

theorem broadcasts_reach_every_socket:
  assumes "registry_live s" and "k \<in> set (sockets s)"
  shows "(\<forall>uid nick body s1.
            session k = Some (uid, nick) \<and>
            message_save e (new_Message e uid nick body) s = Some s1 \<longrightarrow>
            recipients (NewMessage (new_Message e uid nick body))
              (drop (length (trace s)) (trace (on_send_message e k (Some body) s))) =
              map sock_id (sockets s)) \<and>
         (\<forall>uid u msgs.
            jwt_verify e token = Some uid \<and> user_findById e uid s = Some (Some u) \<and>
            user_save_ok e \<and> message_find_recent e s = Some msgs \<longrightarrow>
            recipients (UserJoined (u_nickname u))
              (drop (length (trace s)) (trace (on_authenticate e k token s))) =
              map sock_id (sockets s)) \<and>
         (\<forall>uid nick.
            session k = Some (uid, nick) \<longrightarrow>
            recipients (UserLeft nick)
              (drop (length (trace s)) (trace (socket_disconnect (sock_id k) s))) =
              map sock_id (filter (\<lambda>x. sock_id x \<noteq> sock_id k) (sockets s)))"
proof (intro conjI allI impI)
  fix uid nick body s1
  assume "session k = Some (uid, nick) \<and>
          message_save e (new_Message e uid nick body) s = Some s1"
  then show "recipients (NewMessage (new_Message e uid nick body))
               (drop (length (trace s)) (trace (on_send_message e k (Some body) s))) =
             map sock_id (sockets s)"
    by (simp add: on_send_message_saved)
next
  fix uid u msgs
  assume "jwt_verify e token = Some uid \<and> user_findById e uid s = Some (Some u) \<and>
          user_save_ok e \<and> message_find_recent e s = Some msgs"
  then show "recipients (UserJoined (u_nickname u))
               (drop (length (trace s)) (trace (on_authenticate e k token s))) =
             map sock_id (sockets s)"
    by (simp add: on_authenticate_success)
next
  fix uid nick
  assume "session k = Some (uid, nick)"
  then show "recipients (UserLeft nick)
               (drop (length (trace s)) (trace (socket_disconnect (sock_id k) s))) =
             map sock_id (filter (\<lambda>x. sock_id x \<noteq> sock_id k) (sockets s))"
    by (simp add: socket_disconnect_trace[OF assms])
qed

text \<open>Socket 2 has no identity and no key in \<^verbatim>\<open>connectedUsers\<close>, and it is sent all three
  broadcasts. Socket 3 has joined as bob for the second one.\<close>

theorem broadcasts_reach_every_socket_witness:
  "registry_live lobby \<and> sock1 \<in> set (sockets lobby) \<and>
   session sock2 = None \<and> map_of (connectedUsers lobby) 2 = None \<and>
   recipients (NewMessage (new_Message env0 7 ''alice'' ''hi''))
     (trace (on_send_message env0 sock1 (Some ''hi'') lobby)) = [1, 2] \<and>
   recipients (UserJoined ''bob'') (trace (on_authenticate env0 sock1 ''bob-token'' lobby)) = [1, 2] \<and>
   recipients (UserLeft ''alice'') (trace (socket_disconnect 1 lobby)) = [2]"
proof -
  have h1: "registry_live lobby" by (rule registry_live_lobby)
  have h2: "sock1 \<in> set (sockets lobby)" by (simp add: instance_defs)
  have a: "session sock1 = Some (7, ''alice'')" by (simp add: instance_defs)
  have b: "message_save env0 (new_Message env0 7 ''alice'' ''hi'') lobby =
           Some (lobby\<lparr>messages := [new_Message env0 7 ''alice'' ''hi''],
                       trace := [MessageSaved (new_Message env0 7 ''alice'' ''hi'')]\<rparr>)"
    by (simp add: message_save_def message_valid_def new_Message_def instance_defs)
  have c: "jwt_verify env0 ''bob-token'' = Some 9" "user_findById env0 9 lobby = Some (Some bob)"
    "user_save_ok env0" "message_find_recent env0 lobby = Some []"
    by (simp_all add: user_findById_def message_find_recent_def instance_defs)
  have t: "trace lobby = []" "sock_id sock1 = 1" "u_nickname bob = ''bob''"
    "map sock_id (sockets lobby) = [1, 2]"
    "map sock_id (filter (\<lambda>x. sock_id x \<noteq> Suc 0) (sockets lobby)) = [2]"
    "session sock2 = None" "map_of (connectedUsers lobby) 2 = None"
    by (simp_all add: instance_defs)
  show ?thesis
    using h1 h2 a b c broadcasts_reach_every_socket [OF h1 h2, of env0 "''bob-token''"]
    by (simp add: t)
qed

end
